theory Spec2Isabelle
  imports Complex_Main "HOL-Library.Sublist"
begin

section \<open>The SURF interface and the engine surface of SimGrid\<close>

text \<open>
  A shallow embedding of \<^verbatim>\<open>src/surf/surf_interface.cpp\<close> and of the inline parts of
  \<^verbatim>\<open>include/simgrid/s4u/Engine.hpp\<close>. A C string (\<^verbatim>\<open>const char*\<close>) and a
  \<^verbatim>\<open>std::string\<close> are both a \<^typ>\<open>string\<close>. A C string ends at its first zero byte, so
  it holds none; a \<^verbatim>\<open>std::string\<close> may hold zero bytes, and what a reader of its
  \<^verbatim>\<open>c_str()\<close> sees is the part before the first of them.
  A call that terminates the process (\<^verbatim>\<open>xbt_die\<close>, \<^verbatim>\<open>abort\<close>) is a value of the
  error type, so that every function that may not return has a sum as its result.
\<close>

subsection \<open>Model descriptions and the catalogs\<close>

text \<open>
  The initializers the catalogs point to. Only their identity matters here: a catalog
  entry holds a function pointer, or \<^verbatim>\<open>nullptr\<close> (\<^const>\<open>None\<close>).
\<close>

datatype init_fun =
    surf_network_model_init_LegrandVelho
  | surf_network_model_init_Constant
  | surf_network_model_init_SMPI
  | surf_network_model_init_IB
  | surf_network_model_init_CM02
  | surf_network_model_init_NS3
  | surf_cpu_model_init_Cas01
  | surf_host_model_init_current_default
  | surf_host_model_init_compound
  | surf_host_model_init_ptask_L07
  | surf_disk_model_init_default
  | surf_storage_model_init_default
  | plugin_init nat

record surf_model_description_t =
  name :: string
  description :: string
  model_init_preparse :: "init_fun option"

definition surf_network_model_description :: "surf_model_description_t list" where
  "surf_network_model_description =
    [\<lparr>name = ''LV08'',
      description = ''Realistic network analytic model (slow-start modeled by multiplying latency by 13.01, bandwidth by .97; bottleneck sharing uses a payload of S=20537 for evaluating RTT). '',
      model_init_preparse = Some surf_network_model_init_LegrandVelho\<rparr>,
     \<lparr>name = ''Constant'',
      description = ''Simplistic network model where all communication take a constant time (one second). This model provides the lowest realism, but is (marginally) faster.'',
      model_init_preparse = Some surf_network_model_init_Constant\<rparr>,
     \<lparr>name = ''SMPI'',
      description = ''Realistic network model specifically tailored for HPC settings (accurate modeling of slow start with correction factors on three intervals: < 1KiB, < 64 KiB, >= 64 KiB)'',
      model_init_preparse = Some surf_network_model_init_SMPI\<rparr>,
     \<lparr>name = ''IB'',
      description = ''Realistic network model specifically tailored for HPC settings, with Infiniband contention model'',
      model_init_preparse = Some surf_network_model_init_IB\<rparr>,
     \<lparr>name = ''CM02'',
      description = ''Legacy network analytic model (Very similar to LV08, but without corrective factors. The timings of small messages are thus poorly modeled).'',
      model_init_preparse = Some surf_network_model_init_CM02\<rparr>,
     \<lparr>name = ''ns-3'',
      description = ''Network pseudo-model using the ns-3 tcp model instead of an analytic model'',
      model_init_preparse = Some surf_network_model_init_NS3\<rparr>]"

definition surf_cpu_model_description :: "surf_model_description_t list" where
  "surf_cpu_model_description =
    [\<lparr>name = ''Cas01'', description = ''Simplistic CPU model (time=size/power).'',
      model_init_preparse = Some surf_cpu_model_init_Cas01\<rparr>]"

definition surf_host_model_description :: "surf_model_description_t list" where
  "surf_host_model_description =
    [\<lparr>name = ''default'',
      description = ''Default host model. Currently, CPU:Cas01 and network:LV08 (with cross traffic enabled)'',
      model_init_preparse = Some surf_host_model_init_current_default\<rparr>,
     \<lparr>name = ''compound'',
      description = ''Host model that is automatically chosen if you change the network and CPU models'',
      model_init_preparse = Some surf_host_model_init_compound\<rparr>,
     \<lparr>name = ''ptask_L07'',
      description = ''Host model somehow similar to Cas01+CM02 but allowing parallel tasks'',
      model_init_preparse = Some surf_host_model_init_ptask_L07\<rparr>]"

definition surf_optimization_mode_description :: "surf_model_description_t list" where
  "surf_optimization_mode_description =
    [\<lparr>name = ''Lazy'',
      description = ''Lazy action management (partial invalidation in lmm + heap in action remaining).'',
      model_init_preparse = None\<rparr>,
     \<lparr>name = ''TI'',
      description = ''Trace integration. Highly optimized mode when using availability traces (only available for the Cas01 CPU model for now).'',
      model_init_preparse = None\<rparr>,
     \<lparr>name = ''Full'',
      description = ''Full update of remaining and variables. Slow but may be useful when debugging.'',
      model_init_preparse = None\<rparr>]"

definition surf_disk_model_description :: "surf_model_description_t list" where
  "surf_disk_model_description =
    [\<lparr>name = ''default'', description = ''Simplistic disk model.'',
      model_init_preparse = Some surf_disk_model_init_default\<rparr>]"

definition surf_storage_model_description :: "surf_model_description_t list" where
  "surf_storage_model_description =
    [\<lparr>name = ''default'', description = ''Simplistic storage model.'',
      model_init_preparse = Some surf_storage_model_init_default\<rparr>]"

text \<open>
  \<^verbatim>\<open>simgrid_add_plugin_description\<close>: the plugin table is a pointer to a vector,
  allocated on the first call; every call appends one entry.
\<close>

definition simgrid_add_plugin_description ::
  "string \<Rightarrow> string \<Rightarrow> init_fun \<Rightarrow> surf_model_description_t list option
     \<Rightarrow> surf_model_description_t list option" where
  "simgrid_add_plugin_description nm descr init_fun surf_plugin_description =
     (let tbl = (case surf_plugin_description of None \<Rightarrow> [] | Some t \<Rightarrow> t)
      in Some (tbl @ [\<lparr>name = nm, description = descr, model_init_preparse = Some init_fun\<rparr>]))"

subsection \<open>Looking a model up by name\<close>

text \<open>
  \<^verbatim>\<open>xbt_die\<close> prints its formatted message and aborts: the process ends there and the
  statement after it (\<^verbatim>\<open>return -1\<close>) is never reached.
\<close>

datatype error = Abort string

text \<open>
  \<^verbatim>\<open>std::find_if\<close> over the table, as the distance from \<^verbatim>\<open>begin()\<close>: the position of
  the first element satisfying the predicate, the length of the table (\<^verbatim>\<open>end()\<close>) when
  there is none.
\<close>

fun find_if :: "('a \<Rightarrow> bool) \<Rightarrow> 'a list \<Rightarrow> nat" where
  "find_if p [] = 0"
| "find_if p (x # xs) = (if p x then 0 else Suc (find_if p xs))"

text \<open>
  The loop that builds the list of names: the state is the pair of \<^verbatim>\<open>sep\<close> and
  \<^verbatim>\<open>name_list\<close>, both empty at first.
\<close>

fun name_list_loop :: "surf_model_description_t list \<Rightarrow> string \<times> string \<Rightarrow> string \<times> string" where
  "name_list_loop [] (sep, name_list) = (sep, name_list)"
| "name_list_loop (item # items) (sep, name_list) =
     name_list_loop items ('', '', name_list @ sep @ name item)"

text \<open>
  What \<^verbatim>\<open>printf\<close> prints for \<^verbatim>\<open>%s\<close> when it is given the \<^verbatim>\<open>c_str()\<close> of a
  \<^verbatim>\<open>std::string\<close>: the characters before the first zero byte.
\<close>

definition c_str :: "string \<Rightarrow> string" where
  "c_str s = takeWhile (\<lambda>c. c \<noteq> CHR 0x00) s"

text \<open>
  The message of the second \<^verbatim>\<open>xbt_die\<close>, with \<^verbatim>\<open>name.c_str()\<close> and
  \<^verbatim>\<open>name_list.c_str()\<close> for its two \<^verbatim>\<open>%s\<close>.
\<close>

definition invalid_model_message :: "string \<Rightarrow> string \<Rightarrow> string" where
  "invalid_model_message nm name_list =
     ''Model '' @ [CHR 0x27] @ c_str nm @ [CHR 0x27] @ '' is invalid! Valid models are: ''
       @ c_str name_list @ ''.''"

text \<open>
  \<^verbatim>\<open>find_model_description\<close>. The result is the \<^verbatim>\<open>int\<close> the distance is returned as
  (the catalogs are far below \<open>2\<^sup>3\<^sup>1\<close> entries, where the conversion is the identity).
\<close>

definition find_model_description :: "surf_model_description_t list \<Rightarrow> string \<Rightarrow> error + int" where
  "find_model_description table nm =
     (let pos = find_if (\<lambda>item. name item = nm) table in
      if pos \<noteq> length table then Inr (int pos)
      else if table = [] then Inl (Abort ''No model is valid! This is a bug.'')
      else let (sep, name_list) = name_list_loop table ('''', '''')
           in Inl (Abort (invalid_model_message nm name_list)))"

text \<open>
  The spec's wording of the list in the diagnostic: the names of the catalog, in catalog
  order, separated by a comma and a space.
\<close>

fun comma_separated :: "string list \<Rightarrow> string" where
  "comma_separated [] = ''''"
| "comma_separated [n] = n"
| "comma_separated (n # m # ns) = n @ '', '' @ comma_separated (m # ns)"

subsection \<open>The version check\<close>

text \<open>
  \<^verbatim>\<open>sg_version_check\<close>. The macros \<^verbatim>\<open>SIMGRID_VERSION_MAJOR\<close>, \<^verbatim>\<open>_MINOR\<close> and
  \<^verbatim>\<open>_PATCH\<close> (the version of the library) come from a generated header, so they are
  parameters here. The function writes to \<^verbatim>\<open>stderr\<close> and either returns or calls
  \<^verbatim>\<open>abort\<close>; the result is what was written and how the call ended. Each message
  prints the version the program was compiled with and the version of the library.
\<close>

type_synonym version = "int \<times> int \<times> int"

datatype stderr_message =
    Fatal_mismatch version version
  | Fatal_development_version version version
  | Warning_proceeding version version

datatype ending = Aborted | Returned

definition sg_version_check :: "version \<Rightarrow> int \<Rightarrow> int \<Rightarrow> int \<Rightarrow> stderr_message list \<times> ending" where
  "sg_version_check simgrid_version lib_version_major lib_version_minor lib_version_patch =
     (case simgrid_version of
        (SIMGRID_VERSION_MAJOR, SIMGRID_VERSION_MINOR, SIMGRID_VERSION_PATCH) \<Rightarrow>
          let compiled = (lib_version_major, lib_version_minor, lib_version_patch) in
          if lib_version_major \<noteq> SIMGRID_VERSION_MAJOR \<or> lib_version_minor \<noteq> SIMGRID_VERSION_MINOR
          then ([Fatal_mismatch compiled simgrid_version], Aborted)
          else if lib_version_patch \<noteq> SIMGRID_VERSION_PATCH
          then (if SIMGRID_VERSION_PATCH > 89 \<or> lib_version_patch > 89
                then ([Fatal_development_version compiled simgrid_version], Aborted)
                else ([Warning_proceeding compiled simgrid_version], Returned))
          else ([], Returned))"

definition sg_version_get :: "version \<Rightarrow> int \<times> int \<times> int" where
  "sg_version_get simgrid_version = simgrid_version"

subsection \<open>Opening a file along the search path\<close>

text \<open>
  \<^verbatim>\<open>is_absolute_file_path\<close>, the branch compiled outside Windows: the first character
  of the C string is a slash. The C string of the empty name starts with the
  terminating zero, so the empty name is not absolute.
\<close>

definition is_absolute_file_path :: "string \<Rightarrow> bool" where
  "is_absolute_file_path file_path =
     (case file_path of [] \<Rightarrow> False | c # _ \<Rightarrow> c = CHR ''/'')"

text \<open>
  \<^verbatim>\<open>surf_fopen\<close>. The C library's \<^verbatim>\<open>fopen\<close> is a parameter: it maps a path and a
  mode to a stream, or to the null pointer (\<^const>\<open>None\<close>). The model returns, next
  to the stream, the paths \<^verbatim>\<open>fopen\<close> was called with, in the order of the calls.
\<close>

fun surf_fopen_search ::
  "(string \<Rightarrow> string \<Rightarrow> 'file option) \<Rightarrow> string list \<Rightarrow> string \<Rightarrow> string
     \<Rightarrow> string list \<times> 'file option" where
  "surf_fopen_search fopen [] nm mode = ([], None)"
| "surf_fopen_search fopen (path_elm # rest) nm mode =
     (let buff = path_elm @ ''/'' @ nm in
      case fopen buff mode of
        Some file \<Rightarrow> ([buff], Some file)
      | None \<Rightarrow> (case surf_fopen_search fopen rest nm mode of
                   (calls, file) \<Rightarrow> (buff # calls, file)))"

definition surf_fopen ::
  "(string \<Rightarrow> string \<Rightarrow> 'file option) \<Rightarrow> string list \<Rightarrow> string \<Rightarrow> string
     \<Rightarrow> string list \<times> 'file option" where
  "surf_fopen fopen surf_path nm mode =
     (if is_absolute_file_path nm then ([nm], fopen nm mode)
      else surf_fopen_search fopen surf_path nm mode)"

subsection \<open>The filtered walk over the netzone tree\<close>

text \<open>
  A netzone has an implementation object and children. The template argument \<^verbatim>\<open>T\<close>
  of the walk is the parameter \<open>dynamic_cast\<close>: it gives the implementation as a
  \<^verbatim>\<open>T*\<close>, or the null pointer when its dynamic type is not \<^verbatim>\<open>T\<close> or derived from it.
\<close>

datatype 'impl netzone = NetZone (get_impl: 'impl) (get_children: "'impl netzone list")

fun get_filtered_netzones_recursive ::
  "('impl \<Rightarrow> 't option) \<Rightarrow> 'impl netzone \<Rightarrow> 't list \<Rightarrow> 't list" where
  "get_filtered_netzones_recursive dynamic_cast (NetZone impl children) whereto =
     fold (\<lambda>elem whereto.
             let whereto = get_filtered_netzones_recursive dynamic_cast elem whereto in
             case dynamic_cast (get_impl elem) of
               Some elem_impl \<Rightarrow> whereto @ [elem_impl]
             | None \<Rightarrow> whereto)
          children whereto"

text \<open>
  \<^verbatim>\<open>Engine::get_filtered_netzones\<close> starts the walk at \<^verbatim>\<open>get_netzone_root()\<close> with an
  empty vector. The root is a pointer; with no root zone set it is null and the walk
  dereferences it.
\<close>

definition get_filtered_netzones ::
  "('impl \<Rightarrow> 't option) \<Rightarrow> 'impl netzone option \<Rightarrow> 't list option" where
  "get_filtered_netzones dynamic_cast netzone_root =
     (case netzone_root of
        None \<Rightarrow> None
      | Some current \<Rightarrow> Some (get_filtered_netzones_recursive dynamic_cast current []))"

text \<open>
  The spec's wording: the nodes of the tree, the root included, and those of them whose
  implementation matches the requested category.
\<close>

fun netzone_nodes :: "'impl netzone \<Rightarrow> 'impl netzone list" where
  "netzone_nodes (NetZone impl children) =
     NetZone impl children # concat (map netzone_nodes children)"

definition matching_nodes :: "('impl \<Rightarrow> 't option) \<Rightarrow> 'impl netzone \<Rightarrow> 't set" where
  "matching_nodes dynamic_cast tree =
     {t. \<exists>z \<in> set (netzone_nodes tree). dynamic_cast (get_impl z) = Some t}"

subsection \<open>The registries of the engine\<close>

text \<open>
  Objects are known by their addresses. The engine keeps one registry per kind of
  resource; \<^verbatim>\<open>Engine.hpp\<close> declares \<^verbatim>\<open>host_register\<close>, \<^verbatim>\<open>host_unregister\<close>,
  \<^verbatim>\<open>host_by_name\<close>, \<^verbatim>\<open>host_by_name_or_null\<close> and the same for links and storages,
  but their bodies are in files that are not part of the sources at hand.
\<close>

type_synonym ptr = nat

type_synonym 'r registry = "(string \<times> 'r) list"

datatype engine_error = Already_constructed | Duplicate_name string | Unknown_name string

text \<open>
  Modelled from the spec: the body of \<^verbatim>\<open>register(name, resource)\<close> is missing. The spec
  (4.1): it fails if the name is already present; the entries are enumerated in
  registration order, so a new entry goes to the end.
\<close>

definition registry_register :: "string \<Rightarrow> 'r \<Rightarrow> 'r registry \<Rightarrow> engine_error + 'r registry" where
  "registry_register nm r reg =
     (if nm \<in> fst ` set reg then Inl (Duplicate_name nm) else Inr (reg @ [(nm, r)]))"

text \<open>
  Modelled from the spec: the body of \<^verbatim>\<open>unregister(name)\<close> is missing. The spec (4.1):
  it fails if the name is absent.
\<close>

definition registry_unregister :: "string \<Rightarrow> 'r registry \<Rightarrow> engine_error + 'r registry" where
  "registry_unregister nm reg =
     (if nm \<notin> fst ` set reg then Inl (Unknown_name nm)
      else Inr (filter (\<lambda>entry. fst entry \<noteq> nm) reg))"

text \<open>
  Modelled from the spec: the body of the throwing lookup \<^verbatim>\<open>by_name(name)\<close> is missing.
  The spec (4.1): it fails, fatally, if the name is absent.
\<close>

definition registry_by_name :: "string \<Rightarrow> 'r registry \<Rightarrow> engine_error + 'r" where
  "registry_by_name nm reg =
     (case map_of reg nm of None \<Rightarrow> Inl (Unknown_name nm) | Some r \<Rightarrow> Inr r)"

text \<open>
  Modelled from the spec: the body of \<^verbatim>\<open>by_name_or_null(name)\<close> is missing. The spec
  (4.1): it returns an empty result (the null pointer) where \<^verbatim>\<open>by_name\<close> fails.
\<close>

definition registry_by_name_or_null :: "string \<Rightarrow> 'r registry \<Rightarrow> 'r option" where
  "registry_by_name_or_null nm reg = map_of reg nm"

text \<open>A sequence of registration calls; the first call that fails ends it.\<close>

datatype 'r registry_call = Register string 'r | Unregister string

fun call_name :: "'r registry_call \<Rightarrow> string" where
  "call_name (Register nm r) = nm"
| "call_name (Unregister nm) = nm"

fun apply_registry_call :: "'r registry_call \<Rightarrow> 'r registry \<Rightarrow> engine_error + 'r registry" where
  "apply_registry_call (Register nm r) reg = registry_register nm r reg"
| "apply_registry_call (Unregister nm) reg = registry_unregister nm reg"

fun registry_calls :: "'r registry_call list \<Rightarrow> 'r registry \<Rightarrow> engine_error + 'r registry" where
  "registry_calls [] reg = Inr reg"
| "registry_calls (c # cs) reg =
     (case apply_registry_call c reg of Inl e \<Rightarrow> Inl e | Inr reg' \<Rightarrow> registry_calls cs reg')"

text \<open>
  The spec's wording of "currently registered": the name was registered and not
  unregistered since. \<open>before\<close> says whether the name was registered before the calls.
\<close>

fun registered_after :: "'r registry_call list \<Rightarrow> string \<Rightarrow> bool \<Rightarrow> bool" where
  "registered_after [] nm before = before"
| "registered_after (Register n r # cs) nm before =
     registered_after cs nm (if n = nm then True else before)"
| "registered_after (Unregister n # cs) nm before =
     registered_after cs nm (if n = nm then False else before)"

subsection \<open>The state of the process\<close>

text \<open>
  The engine object holds the registries of hosts, links and storages.
\<close>

record engine =
  hosts :: "ptr registry"
  links :: "ptr registry"
  storages :: "ptr registry"

text \<open>
  What the destructors and the \<^verbatim>\<open>delete\<close> expressions do is recorded as a sequence of
  events, in the order in which they happen.
\<close>

datatype event =
    Release_host ptr
  | Release_link ptr
  | Release_storage ptr
  | Delete_engine ptr
  | Delete_properties ptr
  | Delete_model_properties ptr
  | Delete_storage_type ptr
  | Delete_model ptr

text \<open>
  The globals of \<^verbatim>\<open>surf_interface.cpp\<close> and of the engine: \<^verbatim>\<open>xbt_initialized\<close>, the
  static \<^verbatim>\<open>Engine::instance_\<close> (named \<open>instance\<close> here) with the engine objects that
  are alive, \<^verbatim>\<open>all_existing_models\<close> with the model objects that are alive,
  \<^verbatim>\<open>storage_types\<close>, the clock \<^verbatim>\<open>NOW\<close> and the events so far. \<open>others\<close> is the rest
  of the process: the state of the modules that are not part of the sources at hand
  (configuration, trace manager, platform parser, model checker).
\<close>

record 'x process =
  xbt_initialized :: int
  engine_instance :: "ptr option"
  engines :: "ptr \<rightharpoonup> engine"
  all_existing_models :: "ptr list"
  live_models :: "ptr set"
  storage_types :: "(string \<times> ptr) list"
  NOW :: real
  events :: "event list"
  others :: 'x

definition surf_get_clock :: "'x process \<Rightarrow> real" where
  "surf_get_clock s = NOW s"

text \<open>
  \<^verbatim>\<open>surf_init\<close>. The functions it calls (\<^verbatim>\<open>xbt_init\<close>, \<^verbatim>\<open>sg_config_init\<close>,
  \<^verbatim>\<open>MC_is_active\<close>, \<^verbatim>\<open>MC_memory_init\<close>) are parameters. \<^verbatim>\<open>argc\<close> and \<^verbatim>\<open>argv\<close> are
  passed by pointer: the arguments go in and come out with the state.
\<close>

definition surf_init ::
  "(string list \<times> 'x process \<Rightarrow> string list \<times> 'x process)
     \<Rightarrow> (string list \<times> 'x process \<Rightarrow> string list \<times> 'x process)
     \<Rightarrow> ('x process \<Rightarrow> bool)
     \<Rightarrow> ('x process \<Rightarrow> 'x process)
     \<Rightarrow> string list \<times> 'x process \<Rightarrow> string list \<times> 'x process" where
  "surf_init xbt_init sg_config_init MC_is_active MC_memory_init args_state =
     (if xbt_initialized (snd args_state) > 0 then args_state
      else let args_state = xbt_init args_state;
               args_state = sg_config_init args_state
           in if MC_is_active (snd args_state)
              then (fst args_state, MC_memory_init (snd args_state))
              else args_state)"

text \<open>
  Modelled from the spec: the constructor of \<^verbatim>\<open>Engine\<close> is declared in
  \<^verbatim>\<open>Engine.hpp\<close> and its body is missing. The spec (3, 8): the engine is constructed
  once per process; construction while an instance is alive is an error. \<open>this\<close> is
  the address of the new object. Copying and moving an engine are deleted in
  \<^verbatim>\<open>Engine.hpp\<close>, so this is the only way to make one.
\<close>

definition Engine_new :: "ptr \<Rightarrow> 'x process \<Rightarrow> engine_error + 'x process" where
  "Engine_new this s =
     (if engine_instance s \<noteq> None then Inl Already_constructed
      else Inr (s\<lparr>engines := (engines s)(this \<mapsto> \<lparr>hosts = [], links = [], storages = []\<rparr>),
                 engine_instance := Some this\<rparr>))"

text \<open>
  Modelled from the spec: the body of \<^verbatim>\<open>Engine::shutdown\<close> is missing
  (\<^verbatim>\<open>Engine.hpp\<close>: "Finalize the default engine and all its dependencies"). The
  spec (3): shutting the engine down releases every registered resource. The instance is
  destroyed, its hosts, links and storages are released in registration order, and the
  static pointer is null afterwards; without an instance nothing happens.
\<close>

definition Engine_shutdown :: "'x process \<Rightarrow> 'x process" where
  "Engine_shutdown s =
     (case engine_instance s of
        None \<Rightarrow> s
      | Some this \<Rightarrow>
          (case engines s this of
             None \<Rightarrow> s\<lparr>engine_instance := None\<rparr>
           | Some e \<Rightarrow>
               s\<lparr>engines := (engines s)(this := None),
                 engine_instance := None,
                 events := events s @ map (Release_host \<circ> snd) (hosts e)
                             @ map (Release_link \<circ> snd) (links e)
                             @ map (Release_storage \<circ> snd) (storages e)
                             @ [Delete_engine this]\<rparr>))"

text \<open>
  \<^verbatim>\<open>surf_exit\<close>. The body of the first loop deletes the two property tables of a
  storage type and the storage type; the second loop deletes every model of
  \<^verbatim>\<open>all_existing_models\<close>. Neither container is modified. The three functions it
  calls are not part of the sources at hand and are parameters: \<^verbatim>\<open>Engine::shutdown\<close>
  (\<open>shutdown\<close>; \<^const>\<open>Engine_shutdown\<close> is the spec's model of it), and
  \<^verbatim>\<open>tmgr_finalize\<close> and \<^verbatim>\<open>sg_platf_exit\<close>, which belong to the trace manager and to
  the platform parser and work on \<open>others\<close>. Both loops read their container as it is
  when \<^verbatim>\<open>Engine::shutdown\<close> has returned.
\<close>

definition delete_storage_type :: "string \<times> ptr \<Rightarrow> 'x process \<Rightarrow> 'x process" where
  "delete_storage_type e s =
     (let stype = snd e in
      s\<lparr>events := events s @ [Delete_properties stype, Delete_model_properties stype,
                               Delete_storage_type stype]\<rparr>)"

definition delete_model :: "ptr \<Rightarrow> 'x process \<Rightarrow> 'x process" where
  "delete_model model s =
     s\<lparr>live_models := live_models s - {model}, events := events s @ [Delete_model model]\<rparr>"

definition surf_exit ::
  "('x process \<Rightarrow> 'x process) \<Rightarrow> ('x \<Rightarrow> 'x) \<Rightarrow> ('x \<Rightarrow> 'x) \<Rightarrow> 'x process \<Rightarrow> 'x process" where
  "surf_exit shutdown tmgr_finalize sg_platf_exit s =
     (let s = shutdown s;
          s = fold delete_storage_type (storage_types s) s;
          s = fold delete_model (all_existing_models s) s;
          s = s\<lparr>others := tmgr_finalize (others s)\<rparr>;
          s = s\<lparr>others := sg_platf_exit (others s)\<rparr>
      in s\<lparr>NOW := 0\<rparr>)"

text \<open>
  A life of the process as far as engines go: constructions and shutdowns, ended by the
  first construction that fails.
\<close>

datatype engine_call = Construct ptr | Shutdown

fun engine_calls :: "engine_call list \<Rightarrow> 'x process \<Rightarrow> engine_error + 'x process" where
  "engine_calls [] s = Inr s"
| "engine_calls (Construct this # cs) s =
     (case Engine_new this s of Inl e \<Rightarrow> Inl e | Inr s' \<Rightarrow> engine_calls cs s')"
| "engine_calls (Shutdown # cs) s = engine_calls cs (Engine_shutdown s)"

subsection \<open>Two states of the process\<close>

text \<open>
  A process before any engine is made, and a process at the end of a run: an engine with
  two hosts, a link and a storage, three models, a storage type, and the clock at 12.5.
\<close>

definition process_at_start :: "unit process" where
  "process_at_start =
     \<lparr>xbt_initialized = 1, engine_instance = None, engines = Map.empty,
      all_existing_models = [], live_models = {}, storage_types = [], NOW = 0,
      events = [], others = ()\<rparr>"

definition process_before_exit :: "unit process" where
  "process_before_exit =
     \<lparr>xbt_initialized = 1, engine_instance = Some 1,
      engines = [1 \<mapsto> \<lparr>hosts = [(''h1'', 10), (''h2'', 11)], links = [(''l1'', 20)],
                         storages = [(''d1'', 30)]\<rparr>],
      all_existing_models = [100, 101, 102], live_models = {100, 101, 102},
      storage_types = [(''ssd'', 50)], NOW = 12.5, events = [], others = ()\<rparr>"

section \<open>Properties\<close>

lemma find_if_le: "find_if p xs \<le> length xs"
  by (induction xs) auto

lemma find_if_eq_length: "find_if p xs = length xs \<longleftrightarrow> (\<forall>x\<in>set xs. \<not> p x)"
proof (induction xs)
  case Nil
  show ?case by simp
next
  case (Cons x xs)
  have "find_if p xs \<le> length xs" by (rule find_if_le)
  with Cons show ?case by auto
qed

lemma find_if_first:
  "find_if p xs < length xs \<Longrightarrow> p (xs ! find_if p xs) \<and> (\<forall>j<find_if p xs. \<not> p (xs ! j))"
proof (induction xs)
  case Nil
  then show ?case by simp
next
  case (Cons x xs)
  show ?case
  proof (cases "p x")
    case True
    then show ?thesis by simp
  next
    case False
    with Cons.prems have lt: "find_if p xs < length xs" by simp
    from Cons.IH [OF lt] False show ?thesis
      by (auto simp: nth_Cons split: nat.splits)
  qed
qed

lemma find_if_find:
  "find_if p xs < length xs \<Longrightarrow> find p xs = Some (xs ! find_if p xs)"
  by (induction xs) auto

lemma name_list_loop_sep:
  "name_list_loop items ('', '', acc) = ('', '', acc @ concat (map (\<lambda>i. '', '' @ name i) items))"
  by (induction items arbitrary: acc) auto

lemma comma_separated_Cons:
  "comma_separated (n # ns) = n @ concat (map (\<lambda>m. '', '' @ m) ns)"
  by (induction ns arbitrary: n) auto

lemma name_list_loop_comma_separated:
  "table \<noteq> [] \<Longrightarrow> name_list_loop table ('''', '''') = ('', '', comma_separated (map name table))"
  by (cases table) (simp_all add: name_list_loop_sep comma_separated_Cons comp_def map_concat o_def)

subsection \<open>Model selection\<close>

lemma c_str_no_zero: "CHR 0x00 \<notin> set s \<Longrightarrow> c_str s = s"
  by (auto simp: c_str_def takeWhile_eq_all_conv)

lemma comma_separated_no_zero:
  "\<forall>n \<in> set ns. CHR 0x00 \<notin> set n \<Longrightarrow> CHR 0x00 \<notin> set (comma_separated ns)"
  by (induction ns rule: comma_separated.induct) simp_all

text \<open>
  Claim C1. For every catalog (its names are C strings, so they hold no zero byte) and
  every requested name that no entry of the catalog has, \<^const>\<open>find_model_description\<close>
  ends in a fatal error, and the diagnostic contains the names of the catalog in catalog
  order, separated by a comma and a space. For a catalog with at least one entry the
  diagnostic is exactly \<^verbatim>\<open>Model '<name>' is invalid! Valid models are: <names>.\<close>, where
  the requested name is printed up to its first zero byte; the empty catalog has no valid
  name to list, and its diagnostic is the fixed text of the source.
\<close>

theorem find_model_description_unknown_name:
  assumes "nm \<notin> name ` set table"
    and "\<forall>item \<in> set table. CHR 0x00 \<notin> set (name item)"
  shows "\<exists>msg. find_model_description table nm = Inl (Abort msg)
           \<and> sublist (comma_separated (map name table)) msg
           \<and> (table \<noteq> [] \<longrightarrow>
                msg = ''Model '' @ [CHR 0x27] @ c_str nm @ [CHR 0x27]
                        @ '' is invalid! Valid models are: ''
                        @ comma_separated (map name table) @ ''.'')"
proof (cases "table = []")
  case True
  then show ?thesis by (simp add: find_model_description_def)
next
  case False
  let ?names = "comma_separated (map name table)"
  let ?msg = "''Model '' @ [CHR 0x27] @ c_str nm @ [CHR 0x27]
                @ '' is invalid! Valid models are: '' @ ?names @ ''.''"
  from assms(2) have "CHR 0x00 \<notin> set ?names"
    by (intro comma_separated_no_zero) simp
  then have names: "c_str ?names = ?names" by (rule c_str_no_zero)
  from assms(1) have "find_if (\<lambda>item. name item = nm) table = length table"
    by (auto simp: find_if_eq_length)
  with False have "find_model_description table nm = Inl (Abort (invalid_model_message nm ?names))"
    by (simp add: find_model_description_def name_list_loop_comma_separated)
  with names have res: "find_model_description table nm = Inl (Abort ?msg)"
    by (simp add: invalid_model_message_def)
  have "sublist ?names ?msg"
    unfolding sublist_def by (metis append.assoc)
  with res show ?thesis by simp
qed

text \<open>
  The example of the spec, catalog A, B and request C; and the request of the three
  bytes A, zero, B, of which the message shows the A.
\<close>

theorem find_model_description_unknown_name_witness:
  "(\<exists>msg. find_model_description
            [\<lparr>name = ''A'', description = ''first'', model_init_preparse = None\<rparr>,
             \<lparr>name = ''B'', description = ''second'', model_init_preparse = None\<rparr>] ''C''
          = Inl (Abort msg)
        \<and> sublist ''A, B'' msg
        \<and> msg = ''Model '' @ [CHR 0x27] @ ''C'' @ [CHR 0x27] @ '' is invalid! Valid models are: A, B.'')
   \<and> (\<exists>msg. find_model_description
            [\<lparr>name = ''A'', description = ''first'', model_init_preparse = None\<rparr>,
             \<lparr>name = ''B'', description = ''second'', model_init_preparse = None\<rparr>]
            [CHR ''A'', CHR 0x00, CHR ''B'']
          = Inl (Abort msg)
        \<and> sublist ''A, B'' msg
        \<and> msg = ''Model '' @ [CHR 0x27] @ ''A'' @ [CHR 0x27] @ '' is invalid! Valid models are: A, B.'')"
proof -
  let ?table = "[\<lparr>name = ''A'', description = ''first'', model_init_preparse = None\<rparr>,
                 \<lparr>name = ''B'', description = ''second'', model_init_preparse = None\<rparr>]"
  have absent: "''C'' \<notin> name ` set ?table" "[CHR ''A'', CHR 0x00, CHR ''B''] \<notin> name ` set ?table"
    by simp_all
  have cstrings: "\<forall>item \<in> set ?table. CHR 0x00 \<notin> set (name item)"
    by simp
  from find_model_description_unknown_name [OF absent(1) cstrings]
    find_model_description_unknown_name [OF absent(2) cstrings]
  show ?thesis by (simp add: c_str_def)
qed

text \<open>
  Claim C6. For every catalog and every name that some entry has, the lookup succeeds and
  returns the position of the first entry whose name equals the requested one (equality
  of strings, so case matters): no earlier entry has the name, and the entry is the one
  \<^const>\<open>find\<close> gives. The lookup is a function of the catalog and the name, so the same
  name resolves to the same entry, and to the same initializer, at every selection.
\<close>

theorem find_model_description_known_name:
  assumes "nm \<in> name ` set table"
  shows "\<exists>i. find_model_description table nm = Inr (int i)
           \<and> i < length table
           \<and> name (table ! i) = nm
           \<and> (\<forall>j<i. name (table ! j) \<noteq> nm)
           \<and> find (\<lambda>item. name item = nm) table = Some (table ! i)"
proof -
  let ?p = "\<lambda>item. name item = nm"
  from assms have "find_if ?p table \<noteq> length table"
    by (auto simp: find_if_eq_length)
  with find_if_le [of ?p table] have lt: "find_if ?p table < length table" by simp
  then have "find_model_description table nm = Inr (int (find_if ?p table))"
    by (simp add: find_model_description_def)
  with lt find_if_first [OF lt] find_if_find [OF lt] show ?thesis by blast
qed

text \<open>In the network catalog, CM02 is entry 4 and selects the CM02 initializer.\<close>

theorem find_model_description_known_name_witness:
  "\<exists>i. find_model_description surf_network_model_description ''CM02'' = Inr (int i)
      \<and> i = 4
      \<and> model_init_preparse (surf_network_model_description ! i) = Some surf_network_model_init_CM02
      \<and> find (\<lambda>item. name item = ''CM02'') surf_network_model_description
          = Some (surf_network_model_description ! i)"
  using find_model_description_known_name [of "''CM02''" surf_network_model_description]
  by (simp add: surf_network_model_description_def find_model_description_def)

text \<open>
  Claim C9. Whenever the lookup returns, the result is an index inside the table and the
  entry there has the requested name; when the name is absent or the table is empty the
  lookup aborts, so that no index comes back.
\<close>

theorem find_model_description_result_in_bounds:
  "(\<forall>i. find_model_description table nm = Inr i \<longrightarrow>
         0 \<le> i \<and> i < int (length table) \<and> name (table ! nat i) = nm)
   \<and> (nm \<notin> name ` set table \<or> table = [] \<longrightarrow>
         (\<exists>msg. find_model_description table nm = Inl (Abort msg)))"
proof (intro conjI allI impI)
  fix i
  assume r: "find_model_description table nm = Inr i"
  let ?p = "\<lambda>item. name item = nm"
  from r have ne: "find_if ?p table \<noteq> length table" and i: "i = int (find_if ?p table)"
    by (auto simp: find_model_description_def Let_def split: if_splits prod.splits)
  from ne find_if_le [of ?p table] have lt: "find_if ?p table < length table" by simp
  from find_if_first [OF lt] show "0 \<le> i" "i < int (length table)" "name (table ! nat i) = nm"
    using i lt by simp_all
next
  assume "nm \<notin> name ` set table \<or> table = []"
  then have "find_if (\<lambda>item. name item = nm) table = length table"
    by (auto simp: find_if_eq_length)
  then show "\<exists>msg. find_model_description table nm = Inl (Abort msg)"
    by (simp add: find_model_description_def Let_def split: prod.splits)
qed

text \<open>
  The host catalog: a present name, a name that differs in case only, and the empty table.
\<close>

theorem find_model_description_result_in_bounds_witness:
  "find_model_description surf_host_model_description ''ptask_L07'' = Inr 2
   \<and> (2::int) < int (length surf_host_model_description)
   \<and> name (surf_host_model_description ! nat 2) = ''ptask_L07''
   \<and> (\<exists>msg. find_model_description surf_host_model_description ''Default'' = Inl (Abort msg))
   \<and> (\<exists>msg. find_model_description [] ''default'' = Inl (Abort msg))"
  using find_model_description_result_in_bounds [of surf_host_model_description "''ptask_L07''"]
    find_model_description_result_in_bounds [of surf_host_model_description "''Default''"]
    find_model_description_result_in_bounds [of "[]" "''default''"]
  by (simp add: surf_host_model_description_def find_model_description_def)

subsection \<open>The version check\<close>

text \<open>
  Claim C2. The check ends the process whenever the major or the minor number of the
  caller differs from the library's; with both equal and the patch numbers different it
  ends the process when one of the two patch numbers is above 89, and otherwise prints a
  warning and returns; with the three numbers equal it prints nothing and returns.
\<close>

theorem sg_version_check_outcomes:
  "(a \<noteq> A \<or> b \<noteq> B \<longrightarrow> snd (sg_version_check (A, B, C) a b c) = Aborted)
   \<and> (a = A \<and> b = B \<and> c \<noteq> C \<and> (C > 89 \<or> c > 89) \<longrightarrow>
        snd (sg_version_check (A, B, C) a b c) = Aborted)
   \<and> (a = A \<and> b = B \<and> c \<noteq> C \<and> C \<le> 89 \<and> c \<le> 89 \<longrightarrow>
        sg_version_check (A, B, C) a b c = ([Warning_proceeding (a, b, c) (A, B, C)], Returned))
   \<and> (a = A \<and> b = B \<and> c = C \<longrightarrow> sg_version_check (A, B, C) a b c = ([], Returned))"
  by (simp add: sg_version_check_def)

text \<open>Library 3.23.2 (and 3.23.90) against callers that differ in each component.\<close>

theorem sg_version_check_outcomes_witness:
  "snd (sg_version_check (3, 23, 2) 4 23 2) = Aborted
   \<and> snd (sg_version_check (3, 23, 2) 3 22 2) = Aborted
   \<and> snd (sg_version_check (3, 23, 2) 3 23 90) = Aborted
   \<and> snd (sg_version_check (3, 23, 90) 3 23 2) = Aborted
   \<and> sg_version_check (3, 23, 2) 3 23 89 = ([Warning_proceeding (3, 23, 89) (3, 23, 2)], Returned)
   \<and> sg_version_check (3, 23, 2) 3 23 2 = ([], Returned)"
  using sg_version_check_outcomes [of 4 3 23 23 2 2]
    sg_version_check_outcomes [of 3 3 22 23 2 2]
    sg_version_check_outcomes [of 3 3 23 23 2 90]
    sg_version_check_outcomes [of 3 3 23 23 90 2]
    sg_version_check_outcomes [of 3 3 23 23 2 89]
    sg_version_check_outcomes [of 3 3 23 23 2 2]
  by simp

subsection \<open>Opening a file along the search path\<close>

lemma surf_fopen_search_result:
  "snd (surf_fopen_search fopen surf_path nm mode) =
     (case find (\<lambda>path_elm. fopen (path_elm @ ''/'' @ nm) mode \<noteq> None) surf_path of
        None \<Rightarrow> None
      | Some path_elm \<Rightarrow> fopen (path_elm @ ''/'' @ nm) mode)"
  by (induction surf_path) (auto simp: Let_def split: option.splits prod.splits)

lemma surf_fopen_search_None:
  "snd (surf_fopen_search fopen surf_path nm mode) = None \<longleftrightarrow>
     (\<forall>path_elm \<in> set surf_path. fopen (path_elm @ ''/'' @ nm) mode = None)"
  by (induction surf_path) (auto simp: Let_def split: option.splits prod.splits)

lemma surf_fopen_search_first:
  "snd (surf_fopen_search fopen surf_path nm mode) = Some file \<Longrightarrow>
     \<exists>i<length surf_path. fopen (surf_path ! i @ ''/'' @ nm) mode = Some file
        \<and> (\<forall>j<i. fopen (surf_path ! j @ ''/'' @ nm) mode = None)
        \<and> fst (surf_fopen_search fopen surf_path nm mode)
            = map (\<lambda>path_elm. path_elm @ ''/'' @ nm) (take (Suc i) surf_path)"
proof (induction surf_path)
  case Nil
  then show ?case by simp
next
  case (Cons p ps)
  show ?case
  proof (cases "fopen (p @ ''/'' @ nm) mode")
    case (Some f)
    with Cons.prems have "f = file" by (simp add: Let_def)
    with Some show ?thesis by (intro exI [of _ 0]) simp
  next
    case None
    with Cons.prems have "snd (surf_fopen_search fopen ps nm mode) = Some file"
      by (simp add: Let_def split: prod.splits)
    from Cons.IH [OF this] obtain i where i: "i < length ps"
      "fopen (ps ! i @ ''/'' @ nm) mode = Some file"
      "\<forall>j<i. fopen (ps ! j @ ''/'' @ nm) mode = None"
      "fst (surf_fopen_search fopen ps nm mode) = map (\<lambda>path_elm. path_elm @ ''/'' @ nm) (take (Suc i) ps)"
      by blast
    show ?thesis
    proof (intro exI [of _ "Suc i"] conjI allI impI)
      show "Suc i < length (p # ps)" using i(1) by simp
      show "fopen ((p # ps) ! Suc i @ ''/'' @ nm) mode = Some file" using i(2) by simp
      show "fopen ((p # ps) ! j @ ''/'' @ nm) mode = None" if "j < Suc i" for j
        using that None i(3) by (cases j) auto
      show "fst (surf_fopen_search fopen (p # ps) nm mode)
              = map (\<lambda>path_elm. path_elm @ ''/'' @ nm) (take (Suc (Suc i)) (p # ps))"
        using None i(4) by (auto simp: Let_def split: prod.splits)
    qed
  qed
qed

text \<open>
  Claim C10. A name is absolute exactly when it starts with a slash. An absolute name is
  opened as it is, with a single call of \<^verbatim>\<open>fopen\<close>, whatever the search path holds.
  For a relative name, a stream that comes back is the one of the first entry of the
  search path, in order, for which \<^verbatim>\<open>fopen\<close> of entry, slash and name succeeds, the calls
  made being those of the entries up to that one; the result is null exactly when
  \<^verbatim>\<open>fopen\<close> fails for every entry.
\<close>

theorem surf_fopen_absolute_or_search:
  "(is_absolute_file_path nm \<longleftrightarrow> (\<exists>rest. nm = CHR ''/'' # rest))
   \<and> (is_absolute_file_path nm \<longrightarrow>
        surf_fopen fopen surf_path nm mode = ([nm], fopen nm mode))
   \<and> (\<not> is_absolute_file_path nm \<longrightarrow>
        (\<forall>file. snd (surf_fopen fopen surf_path nm mode) = Some file \<longrightarrow>
           (\<exists>i<length surf_path.
              fopen (surf_path ! i @ ''/'' @ nm) mode = Some file
              \<and> (\<forall>j<i. fopen (surf_path ! j @ ''/'' @ nm) mode = None)
              \<and> fst (surf_fopen fopen surf_path nm mode)
                  = map (\<lambda>path_elm. path_elm @ ''/'' @ nm) (take (Suc i) surf_path)))
        \<and> (snd (surf_fopen fopen surf_path nm mode) = None \<longleftrightarrow>
             (\<forall>path_elm \<in> set surf_path. fopen (path_elm @ ''/'' @ nm) mode = None)))"
proof (intro conjI impI allI)
  show "is_absolute_file_path nm \<longleftrightarrow> (\<exists>rest. nm = CHR ''/'' # rest)"
    by (cases nm) (auto simp: is_absolute_file_path_def)
next
  assume "is_absolute_file_path nm"
  then show "surf_fopen fopen surf_path nm mode = ([nm], fopen nm mode)"
    by (simp add: surf_fopen_def)
next
  fix f
  assume rel: "\<not> is_absolute_file_path nm"
    and "snd (surf_fopen fopen surf_path nm mode) = Some f"
  then have "snd (surf_fopen_search fopen surf_path nm mode) = Some f"
    by (simp add: surf_fopen_def)
  from surf_fopen_search_first [OF this] rel
  show "\<exists>i<length surf_path.
          fopen (surf_path ! i @ ''/'' @ nm) mode = Some f
          \<and> (\<forall>j<i. fopen (surf_path ! j @ ''/'' @ nm) mode = None)
          \<and> fst (surf_fopen fopen surf_path nm mode)
              = map (\<lambda>path_elm. path_elm @ ''/'' @ nm) (take (Suc i) surf_path)"
    by (simp add: surf_fopen_def)
next
  assume "\<not> is_absolute_file_path nm"
  then show "snd (surf_fopen fopen surf_path nm mode) = None \<longleftrightarrow>
           (\<forall>path_elm \<in> set surf_path. fopen (path_elm @ ''/'' @ nm) mode = None)"
    by (simp add: surf_fopen_def surf_fopen_search_None)
qed

text \<open>
  A file system with three files and a search path of three entries: an absolute name, a
  relative name found under the second entry, and a relative name found nowhere.
\<close>

theorem surf_fopen_absolute_or_search_witness:
  "surf_fopen (\<lambda>p m. if p = ''/etc/platform.xml'' then Some (3::nat)
                      else if p = ''examples/platform.xml'' then Some 4
                      else if p = ''share/platform.xml'' then Some 5 else None)
      [''.'', ''examples'', ''share''] ''/etc/platform.xml'' ''r'' = ([''/etc/platform.xml''], Some 3)
   \<and> surf_fopen (\<lambda>p m. if p = ''/etc/platform.xml'' then Some (3::nat)
                      else if p = ''examples/platform.xml'' then Some 4
                      else if p = ''share/platform.xml'' then Some 5 else None)
      [''.'', ''examples'', ''share''] ''platform.xml'' ''r''
        = ([''./platform.xml'', ''examples/platform.xml''], Some 4)
   \<and> snd (surf_fopen (\<lambda>p m. if p = ''/etc/platform.xml'' then Some (3::nat)
                      else if p = ''examples/platform.xml'' then Some 4
                      else if p = ''share/platform.xml'' then Some 5 else None)
      [''.'', ''examples'', ''share''] ''deploy.xml'' ''r'') = None"
  using surf_fopen_absolute_or_search [of "''/etc/platform.xml''"
      "\<lambda>p m. if p = ''/etc/platform.xml'' then Some (3::nat)
                      else if p = ''examples/platform.xml'' then Some 4
                      else if p = ''share/platform.xml'' then Some 5 else None"
      "[''.'', ''examples'', ''share'']" "''r''"]
    surf_fopen_absolute_or_search [of "''deploy.xml''"
      "\<lambda>p m. if p = ''/etc/platform.xml'' then Some (3::nat)
                      else if p = ''examples/platform.xml'' then Some 4
                      else if p = ''share/platform.xml'' then Some 5 else None"
      "[''.'', ''examples'', ''share'']" "''r''"]
  by (simp add: surf_fopen_def is_absolute_file_path_def)

subsection \<open>The filtered walk over the netzone tree\<close>

text \<open>
  What the walk collects: the matching nodes below the children of the node it starts
  at, the children included. The node it starts at is never tested.
\<close>

lemma set_get_filtered_netzones_recursive:
  "set (get_filtered_netzones_recursive dc z w) =
     set w \<union> (\<Union>c \<in> set (get_children z). {t. \<exists>y \<in> set (netzone_nodes c). dc (get_impl y) = Some t})"
proof (induction z arbitrary: w)
  case (NetZone impl children)
  have step: "set (fold (\<lambda>elem whereto.
             let whereto = get_filtered_netzones_recursive dc elem whereto in
             case dc (get_impl elem) of
               Some elem_impl \<Rightarrow> whereto @ [elem_impl]
             | None \<Rightarrow> whereto) cs w)
      = set w \<union> (\<Union>c \<in> set cs. {t. \<exists>y \<in> set (netzone_nodes c). dc (get_impl y) = Some t})"
    if "set cs \<subseteq> set children" for cs w
    using that
  proof (induction cs arbitrary: w)
    case Nil
    show ?case by simp
  next
    case (Cons c cs)
    from Cons.prems have c: "c \<in> set children" and cs: "set cs \<subseteq> set children" by auto
    obtain i ch where ceq: "c = NetZone i ch" by (cases c)
    have "{t. \<exists>y \<in> set (netzone_nodes c). dc (get_impl y) = Some t}
            = {t. dc (get_impl c) = Some t}
              \<union> (\<Union>d \<in> set (get_children c). {t. \<exists>y \<in> set (netzone_nodes d). dc (get_impl y) = Some t})"
      unfolding ceq by auto
    with NetZone.IH [OF c] Cons.IH [OF cs] show ?case
      by (auto simp: Let_def split: option.splits)
  qed
  show ?case by (simp add: step)
qed

lemma get_filtered_netzones_descendants:
  "get_filtered_netzones dc (Some tree) = Some res \<Longrightarrow>
     set res = (\<Union>c \<in> set (get_children tree). matching_nodes dc c)"
  unfolding get_filtered_netzones_def matching_nodes_def
  by (fastforce simp: set_get_filtered_netzones_recursive)

text \<open>
  Claim C5 says that the walk from the root zone returns every node of the tree whose
  implementation matches, at every depth; the comment of \<^verbatim>\<open>get_filtered_netzones\<close> in
  the source says the same (all netzones of the type of the template argument). On a tree
  made of a root zone that matches, the walk returns nothing, although the root is a
  matching node of the tree.
\<close>

theorem get_filtered_netzones_misses_root:
  "get_filtered_netzones (\<lambda>impl. if impl = ''cluster'' then Some impl else None)
       (Some (NetZone ''cluster'' [])) = Some []
   \<and> matching_nodes (\<lambda>impl. if impl = ''cluster'' then Some impl else None)
       (NetZone ''cluster'' []) = {''cluster''}"
  by (auto simp: get_filtered_netzones_def matching_nodes_def)

subsection \<open>Shutting down\<close>








text \<open>
  The spec's model of \<^verbatim>\<open>Engine::shutdown\<close> adds the release of every registered host,
  link and storage to the events, deletes no model and leaves the containers of
  \<^const>\<open>surf_exit\<close> alone.
\<close>

lemma Engine_shutdown_events:
  "\<exists>rel. events (Engine_shutdown s) = events s @ rel
     \<and> (\<forall>m. Delete_model m \<notin> set rel)
     \<and> (\<forall>this e. engine_instance s = Some this \<and> engines s this = Some e \<longrightarrow>
           Release_host ` snd ` set (hosts e) \<union> Release_link ` snd ` set (links e)
             \<union> Release_storage ` snd ` set (storages e) \<subseteq> set rel)"
proof (cases "engine_instance s")
  case None
  then show ?thesis by (simp add: Engine_shutdown_def)
next
  case (Some this)
  show ?thesis
  proof (cases "engines s this")
    case None
    with Some show ?thesis by (simp add: Engine_shutdown_def)
  next
    case (Some e)
    let ?rel = "map (Release_host \<circ> snd) (hosts e) @ map (Release_link \<circ> snd) (links e)
                  @ map (Release_storage \<circ> snd) (storages e) @ [Delete_engine this]"
    from Some \<open>engine_instance s = Some this\<close>
    have "events (Engine_shutdown s) = events s @ ?rel"
      by (simp add: Engine_shutdown_def)
    moreover have "\<forall>m. Delete_model m \<notin> set ?rel" by auto
    moreover have "Release_host ` snd ` set (hosts e) \<union> Release_link ` snd ` set (links e)
             \<union> Release_storage ` snd ` set (storages e) \<subseteq> set ?rel"
      by (auto simp: image_comp)
    ultimately show ?thesis
      using Some \<open>engine_instance s = Some this\<close> by (intro exI [of _ ?rel]) simp
  qed
qed

lemma Engine_shutdown_frame:
  "all_existing_models (Engine_shutdown s) = all_existing_models s"
  "live_models (Engine_shutdown s) = live_models s"
  "storage_types (Engine_shutdown s) = storage_types s"
  by (simp_all add: Engine_shutdown_def split: option.splits)

text \<open>
  Claim C3. After \<^const>\<open>surf_exit\<close> the clock \<^verbatim>\<open>NOW\<close> is 0 and \<^const>\<open>surf_get_clock\<close>
  returns 0, whatever the clock was before and whatever the functions of the other
  modules do.
\<close>

theorem surf_exit_resets_clock:
  "NOW (surf_exit shutdown tmgr_finalize sg_platf_exit s) = 0
   \<and> surf_get_clock (surf_exit shutdown tmgr_finalize sg_platf_exit s) = 0"
  by (simp add: surf_exit_def surf_get_clock_def Let_def)

text \<open>The process at the end of a run: the clock goes from 12.5 to 0.\<close>

theorem surf_exit_resets_clock_witness:
  "NOW process_before_exit = 12.5
   \<and> NOW (surf_exit Engine_shutdown id id process_before_exit) = 0
   \<and> surf_get_clock (surf_exit Engine_shutdown id id process_before_exit) = 0"
  using surf_exit_resets_clock [of Engine_shutdown id id process_before_exit]
  by (simp add: process_before_exit_def)




subsection \<open>The registries\<close>

lemma registry_register_names:
  "registry_register nm r reg = Inr reg' \<Longrightarrow>
     nm \<notin> fst ` set reg \<and> fst ` set reg' = insert nm (fst ` set reg)"
  by (auto simp: registry_register_def split: if_splits)

lemma registry_unregister_names:
  "registry_unregister nm reg = Inr reg' \<Longrightarrow>
     nm \<in> fst ` set reg \<and> fst ` set reg' = fst ` set reg - {nm}"
  by (auto simp: registry_unregister_def split: if_splits)

lemma registry_by_name_succeeds:
  "(\<exists>r. registry_by_name nm reg = Inr r) \<longleftrightarrow> nm \<in> fst ` set reg"
proof -
  have "(\<exists>r. registry_by_name nm reg = Inr r) \<longleftrightarrow> map_of reg nm \<noteq> None"
    by (simp add: registry_by_name_def split: option.splits)
  then show ?thesis by (simp add: map_of_eq_None_iff)
qed

lemma registry_calls_names:
  "registry_calls cs reg = Inr reg' \<Longrightarrow>
     (nm \<in> fst ` set reg') = registered_after cs nm (nm \<in> fst ` set reg)"
proof (induction cs arbitrary: reg)
  case Nil
  then show ?case by simp
next
  case (Cons c cs)
  from Cons.prems obtain reg1 where c: "apply_registry_call c reg = Inr reg1"
    and rest: "registry_calls cs reg1 = Inr reg'"
    by (auto split: sum.splits)
  note IH = Cons.IH [OF rest]
  show ?case
  proof (cases c)
    case (Register n r)
    with c have "fst ` set reg1 = insert n (fst ` set reg)"
      by (simp add: registry_register_names)
    with IH Register show ?thesis by auto
  next
    case (Unregister n)
    with c have "fst ` set reg1 = fst ` set reg - {n}"
      by (simp add: registry_unregister_names)
    with IH Unregister show ?thesis by auto
  qed
qed

lemma registry_calls_parity:
  "registry_calls cs reg = Inr reg' \<Longrightarrow>
     (nm \<in> fst ` set reg') =
       (if even (length (filter (\<lambda>c. call_name c = nm) cs))
        then nm \<in> fst ` set reg else nm \<notin> fst ` set reg)"
proof (induction cs arbitrary: reg)
  case Nil
  then show ?case by simp
next
  case (Cons c cs)
  from Cons.prems obtain reg1 where c: "apply_registry_call c reg = Inr reg1"
    and rest: "registry_calls cs reg1 = Inr reg'"
    by (auto split: sum.splits)
  note IH = Cons.IH [OF rest]
  show ?case
  proof (cases c)
    case (Register n r)
    with c have "n \<notin> fst ` set reg" "fst ` set reg1 = insert n (fst ` set reg)"
      by (simp_all add: registry_register_names)
    with IH Register show ?thesis by auto
  next
    case (Unregister n)
    with c have "n \<in> fst ` set reg" "fst ` set reg1 = fst ` set reg - {n}"
      by (simp_all add: registry_unregister_names)
    with IH Unregister show ?thesis by auto
  qed
qed

text \<open>
  Claim C7. After any sequence of register and unregister calls that all succeed, started
  on any registry, the throwing lookup succeeds on a name exactly when the name is
  currently registered: registered, before or by the calls, and not unregistered since.
  Started on the empty registry, that is when the number of calls on the name is odd.
  Registering a name that is present fails; unregistering a name that is absent fails; for
  an absent name the throwing lookup fails and the other lookup returns the empty result,
  and where one lookup finds a resource the other finds the same.
\<close>

theorem registry_by_name_iff_registered:
  "(registry_calls cs reg = Inr reg' \<longrightarrow>
      ((\<exists>r. registry_by_name nm reg' = Inr r) \<longleftrightarrow> registered_after cs nm (nm \<in> fst ` set reg)))
   \<and> (registry_calls cs [] = Inr reg' \<longrightarrow>
      ((\<exists>r. registry_by_name nm reg' = Inr r) \<longleftrightarrow> odd (length (filter (\<lambda>c. call_name c = nm) cs))))
   \<and> (nm \<in> fst ` set reg \<longrightarrow> registry_register nm r reg = Inl (Duplicate_name nm))
   \<and> (nm \<notin> fst ` set reg \<longrightarrow>
        registry_unregister nm reg = Inl (Unknown_name nm)
        \<and> registry_by_name nm reg = Inl (Unknown_name nm)
        \<and> registry_by_name_or_null nm reg = None)
   \<and> (registry_by_name_or_null nm reg = Some r \<longleftrightarrow> registry_by_name nm reg = Inr r)"
proof (intro conjI impI)
  assume "registry_calls cs reg = Inr reg'"
  from registry_calls_names [OF this]
  show "(\<exists>r. registry_by_name nm reg' = Inr r) \<longleftrightarrow> registered_after cs nm (nm \<in> fst ` set reg)"
    by (simp add: registry_by_name_succeeds)
next
  assume "registry_calls cs [] = Inr reg'"
  from registry_calls_parity [OF this, of nm]
  show "(\<exists>r. registry_by_name nm reg' = Inr r) \<longleftrightarrow> odd (length (filter (\<lambda>c. call_name c = nm) cs))"
    by (simp add: registry_by_name_succeeds)
next
  assume "nm \<in> fst ` set reg"
  then show "registry_register nm r reg = Inl (Duplicate_name nm)"
    by (simp add: registry_register_def)
next
  assume a: "nm \<notin> fst ` set reg"
  then show "registry_unregister nm reg = Inl (Unknown_name nm)"
    by (simp add: registry_unregister_def)
  from a have "map_of reg nm = None" by (simp add: map_of_eq_None_iff)
  then show "registry_by_name nm reg = Inl (Unknown_name nm)"
    "registry_by_name_or_null nm reg = None"
    by (simp_all add: registry_by_name_def registry_by_name_or_null_def)
next
  show "registry_by_name_or_null nm reg = Some r \<longleftrightarrow> registry_by_name nm reg = Inr r"
    by (simp add: registry_by_name_def registry_by_name_or_null_def split: option.splits)
qed

text \<open>
  Two hosts are registered and the first is unregistered: the second is found, the first
  is not, a second registration of the second fails and so does a second unregistration
  of the first.
\<close>

theorem registry_by_name_iff_registered_witness:
  "registry_calls [Register ''h1'' (1::nat), Register ''h2'' 2, Unregister ''h1''] [] = Inr [(''h2'', 2)]
   \<and> registry_by_name ''h2'' [(''h2'', 2::nat)] = Inr 2
   \<and> registered_after [Register ''h1'' (1::nat), Register ''h2'' 2, Unregister ''h1''] ''h2'' False
   \<and> registry_by_name ''h1'' [(''h2'', 2::nat)] = Inl (Unknown_name ''h1'')
   \<and> \<not> registered_after [Register ''h1'' (1::nat), Register ''h2'' 2, Unregister ''h1''] ''h1'' False
   \<and> registry_register ''h2'' 3 [(''h2'', 2::nat)] = Inl (Duplicate_name ''h2'')
   \<and> registry_unregister ''h1'' [(''h2'', 2::nat)] = Inl (Unknown_name ''h1'')
   \<and> registry_by_name_or_null ''h1'' [(''h2'', 2::nat)] = None"
  using registry_by_name_iff_registered
      [of "[Register ''h1'' (1::nat), Register ''h2'' 2, Unregister ''h1'']" "[]" "[(''h2'', 2)]" "''h2''" 2]
    registry_by_name_iff_registered
      [of "[Register ''h1'' (1::nat), Register ''h2'' 2, Unregister ''h1'']" "[]" "[(''h2'', 2)]" "''h1''" 1]
    registry_by_name_iff_registered [of "[]" "[(''h2'', 2::nat)]" "[(''h2'', 2)]" "''h2''" 3]
    registry_by_name_iff_registered [of "[]" "[(''h2'', 2::nat)]" "[(''h2'', 2)]" "''h1''" 3]
  by (simp add: registry_register_def registry_unregister_def registry_by_name_def)

subsection \<open>One engine per process\<close>

lemma Engine_new_invariant:
  "dom (engines s) = set_option (engine_instance s) \<Longrightarrow> Engine_new this s = Inr s' \<Longrightarrow>
     dom (engines s') = set_option (engine_instance s')"
  by (auto simp: Engine_new_def split: if_splits)

lemma Engine_shutdown_invariant:
  "dom (engines s) = set_option (engine_instance s) \<Longrightarrow>
     dom (engines (Engine_shutdown s)) = set_option (engine_instance (Engine_shutdown s))"
  by (auto simp: Engine_shutdown_def split: option.splits)

lemma engine_calls_invariant:
  "dom (engines s) = set_option (engine_instance s) \<Longrightarrow> engine_calls cs s = Inr s' \<Longrightarrow>
     dom (engines s') = set_option (engine_instance s')"
proof (induction cs s rule: engine_calls.induct)
  case (1 s)
  then show ?case by simp
next
  case (2 this cs s)
  from "2.prems"(2) obtain s1 where new: "Engine_new this s = Inr s1"
    and rest: "engine_calls cs s1 = Inr s'"
    by (auto split: sum.splits)
  from Engine_new_invariant [OF "2.prems"(1) new] rest "2.IH" [OF new] show ?case by simp
next
  case (3 cs s)
  from "3.prems"(2) have "engine_calls cs (Engine_shutdown s) = Inr s'" by simp
  with "3.IH" Engine_shutdown_invariant [OF "3.prems"(1)] show ?case by simp
qed

lemma card_set_option: "card (set_option x) \<le> 1"
  by (cases x) simp_all

text \<open>
  Claim C8. In a process where the engines alive are the one \<^verbatim>\<open>instance_\<close> points to,
  if any, this stays so after any sequence of constructions and shutdowns: at most one
  engine is alive at any time. Constructing an engine while one is alive fails. When
  \<^verbatim>\<open>xbt_initialized\<close> is positive, \<^const>\<open>surf_init\<close> returns the arguments and the state
  it was given, whatever the functions of the other modules do.
\<close>

theorem engine_is_singleton:
  assumes "dom (engines s) = set_option (engine_instance s)"
    and "engine_calls cs s = Inr s'"
  shows "dom (engines s') = set_option (engine_instance s')
     \<and> card (dom (engines s')) \<le> 1
     \<and> (engine_instance s' \<noteq> None \<longrightarrow> Engine_new this s' = Inl Already_constructed)
     \<and> (0 < xbt_initialized s' \<longrightarrow>
          surf_init xbt_init sg_config_init MC_is_active MC_memory_init (args, s') = (args, s'))"
proof -
  from engine_calls_invariant [OF assms]
  have inv: "dom (engines s') = set_option (engine_instance s')" .
  have "card (set_option (engine_instance s')) \<le> 1" by (rule card_set_option)
  with inv have "card (dom (engines s')) \<le> 1" by (simp only:)
  with inv show ?thesis by (simp add: Engine_new_def surf_init_def)
qed

text \<open>
  A process that makes an engine, shuts it down and makes another: one engine is alive,
  a third construction fails, and \<^const>\<open>surf_init\<close> changes nothing. Two constructions
  in a row fail.
\<close>

theorem engine_is_singleton_witness:
  "dom (engines process_at_start) = set_option (engine_instance process_at_start)
   \<and> (\<exists>s'. engine_calls [Construct 1, Shutdown, Construct 2] process_at_start = Inr s'
          \<and> engine_instance s' = Some 2
          \<and> dom (engines s') = {2}
          \<and> Engine_new 3 s' = Inl Already_constructed
          \<and> surf_init (\<lambda>a. ([], snd a)) (\<lambda>a. ([], snd a)) (\<lambda>s. True) (\<lambda>s. s\<lparr>NOW := 1\<rparr>) ([''prog''], s')
               = ([''prog''], s'))
   \<and> engine_calls [Construct 1, Construct 2] process_at_start = Inl Already_constructed"
proof -
  have inv: "dom (engines process_at_start) = set_option (engine_instance process_at_start)"
    by (simp add: process_at_start_def)
  obtain s' where run: "engine_calls [Construct 1, Shutdown, Construct 2] process_at_start = Inr s'"
    by (simp add: process_at_start_def Engine_new_def Engine_shutdown_def)
  have inst: "engine_instance s' = Some 2" and x: "xbt_initialized s' = 1"
    using run by (auto simp: process_at_start_def Engine_new_def Engine_shutdown_def)
  from engine_is_singleton [OF inv run, of 3 "\<lambda>a. ([], snd a)" "\<lambda>a. ([], snd a)" "\<lambda>s. True"
      "\<lambda>s. s\<lparr>NOW := 1\<rparr>" "[''prog'']"] inst x
  have "dom (engines s') = {2}" "Engine_new 3 s' = Inl Already_constructed"
    "surf_init (\<lambda>a. ([], snd a)) (\<lambda>a. ([], snd a)) (\<lambda>s. True) (\<lambda>s. s\<lparr>NOW := 1\<rparr>) ([''prog''], s')
               = ([''prog''], s')"
    by simp_all
  moreover have "engine_calls [Construct 1, Construct 2] process_at_start = Inl Already_constructed"
    by (simp add: process_at_start_def Engine_new_def)
  ultimately show ?thesis using inv run inst by simp
qed

end
